theory Spec2Isabelle
  imports Main "HOL-Library.Sublist"
begin

section \<open>Keyword classification tables (common.py, lines 6-21)\<close>

definition PARAM_KEYWORDS :: "string set" where
  "PARAM_KEYWORDS = {''param'', ''parameter'', ''arg'', ''argument'', ''attribute'',
                     ''key'', ''keyword'', ''note''}"

definition RAISES_KEYWORDS :: "string set" where
  "RAISES_KEYWORDS = {''raises'', ''raise'', ''except'', ''exception''}"

definition DEPRECATION_KEYWORDS :: "string set" where
  "DEPRECATION_KEYWORDS = {''deprecation'', ''deprecated''}"

definition RETURNS_KEYWORDS :: "string set" where
  "RETURNS_KEYWORDS = {''return'', ''returns''}"

definition YIELDS_KEYWORDS :: "string set" where
  "YIELDS_KEYWORDS = {''yield'', ''yields''}"

definition EXAMPLES_KEYWORDS :: "string set" where
  "EXAMPLES_KEYWORDS = {''example'', ''examples''}"

definition NOTES_KEYWORDS :: "string set" where
  "NOTES_KEYWORDS = {''note'', ''notes''}"


section \<open>The metadata model (common.py, lines 28-234)\<close>

datatype DocstringStyle = REST | GOOGLE | NUMPYDOC | EPYDOC | AUTO

datatype RenderingStyle = COMPACT | CLEAN | EXPANDED

text \<open>
  The class hierarchy below \<open>DocstringMeta\<close> is a tagged union: the fields every
  fragment has (\<open>args\<close>, \<open>description\<close>, \<open>arg_name\<close>, all set by
  \<open>DocstringMeta.__init__\<close>) are the fields of a record, and the fields a subclass adds
  are the arguments of its constructor in \<open>variant\<close>. \<open>MetaV\<close> is an instance of the
  base class itself, which the source allows.
\<close>

datatype variant =
    MetaV
  | ParamV (type_name: "string option") (is_optional: "bool option") (default: "string option")
  | ReturnsV (type_name: "string option") (is_generator: bool) (return_name: "string option")
  | RaisesV (type_name: "string option")
  | DeprecatedV (version: "string option")
  | ExampleV (snippet: "string option")
  | NoteV (snippet: "string option")

datatype kind = KMeta | KParam | KReturns | KRaises | KDeprecated | KExample | KNote

fun kind_of :: "variant \<Rightarrow> kind" where
  "kind_of MetaV = KMeta"
| "kind_of (ParamV t opt dflt) = KParam"
| "kind_of (ReturnsV t g n) = KReturns"
| "kind_of (RaisesV t) = KRaises"
| "kind_of (DeprecatedV v) = KDeprecated"
| "kind_of (ExampleV s) = KExample"
| "kind_of (NoteV s) = KNote"

record DocstringMeta =
  args :: "string list"
  description :: "string option"
  arg_name :: "string option"
  variant :: variant

text \<open>The constructors of the seven classes, each with the assignments of its \<open>__init__\<close>.\<close>

definition DocstringMeta_init :: "string list \<Rightarrow> string option \<Rightarrow> DocstringMeta" where
  "DocstringMeta_init a d =
     \<lparr>args = a, description = d, arg_name = None, variant = MetaV\<rparr>"

definition DocstringParam ::
  "string list \<Rightarrow> string option \<Rightarrow> string \<Rightarrow> string option \<Rightarrow> bool option \<Rightarrow> string option
   \<Rightarrow> DocstringMeta" where
  "DocstringParam a d name ty opt dflt =
     (DocstringMeta_init a d)\<lparr>arg_name := Some name, variant := ParamV ty opt dflt\<rparr>"

definition DocstringReturns ::
  "string list \<Rightarrow> string option \<Rightarrow> string option \<Rightarrow> bool \<Rightarrow> string option \<Rightarrow> DocstringMeta" where
  "DocstringReturns a d ty gen rname =
     (DocstringMeta_init a d)\<lparr>variant := ReturnsV ty gen rname, arg_name := None\<rparr>"

definition DocstringRaises :: "string list \<Rightarrow> string option \<Rightarrow> string option \<Rightarrow> DocstringMeta" where
  "DocstringRaises a d ty = (DocstringMeta_init a d)\<lparr>variant := RaisesV ty, description := d\<rparr>"

definition DocstringDeprecated ::
  "string list \<Rightarrow> string option \<Rightarrow> string option \<Rightarrow> DocstringMeta" where
  "DocstringDeprecated a d ver =
     (DocstringMeta_init a d)\<lparr>variant := DeprecatedV ver, description := d\<rparr>"

definition DocstringExample :: "string list \<Rightarrow> string option \<Rightarrow> string option \<Rightarrow> DocstringMeta" where
  "DocstringExample a snip d =
     (DocstringMeta_init a d)\<lparr>variant := ExampleV snip, description := d\<rparr>"

definition DocstringNote :: "string list \<Rightarrow> string option \<Rightarrow> string option \<Rightarrow> DocstringMeta" where
  "DocstringNote a snip d = (DocstringMeta_init a d)\<lparr>variant := NoteV snip, description := d\<rparr>"

text \<open>\<open>isinstance(item, cls)\<close> for the seven classes; every fragment is a \<open>DocstringMeta\<close>.\<close>

definition isinstance :: "DocstringMeta \<Rightarrow> kind \<Rightarrow> bool" where
  "isinstance item k = (k = KMeta \<or> kind_of (variant item) = k)"

record Docstring =
  short_description :: "string option"
  long_description :: "string option"
  blank_after_short_description :: bool
  blank_after_long_description :: bool
  meta :: "DocstringMeta list"
  style :: "DocstringStyle option"

definition Docstring_init :: "DocstringStyle option \<Rightarrow> Docstring" where
  "Docstring_init s =
     \<lparr>short_description = None, long_description = None,
      blank_after_short_description = False, blank_after_long_description = False,
      meta = [], style = s\<rparr>"

text \<open>
  The list comprehension \<open>[item for item in self.meta if isinstance(item, cls)]\<close>, as the
  loop it abbreviates.
\<close>

fun instances_of :: "kind \<Rightarrow> DocstringMeta list \<Rightarrow> DocstringMeta list" where
  "instances_of k [] = []"
| "instances_of k (item # items) =
     (if isinstance item k then item # instances_of k items else instances_of k items)"

text \<open>
  The loop of \<open>returns\<close> and \<open>deprecation\<close>: return the first instance, \<open>None\<close> when the
  loop runs out.
\<close>

fun first_instance_of :: "kind \<Rightarrow> DocstringMeta list \<Rightarrow> DocstringMeta option" where
  "first_instance_of k [] = None"
| "first_instance_of k (item # items) =
     (if isinstance item k then Some item else first_instance_of k items)"

definition params :: "Docstring \<Rightarrow> DocstringMeta list" where
  "params d = instances_of KParam (meta d)"

definition raises :: "Docstring \<Rightarrow> DocstringMeta list" where
  "raises d = instances_of KRaises (meta d)"

definition returns :: "Docstring \<Rightarrow> DocstringMeta option" where
  "returns d = first_instance_of KReturns (meta d)"

definition many_returns :: "Docstring \<Rightarrow> DocstringMeta list" where
  "many_returns d = instances_of KReturns (meta d)"

definition deprecation :: "Docstring \<Rightarrow> DocstringMeta option" where
  "deprecation d = first_instance_of KDeprecated (meta d)"

definition examples :: "Docstring \<Rightarrow> DocstringMeta list" where
  "examples d = instances_of KExample (meta d)"

text \<open>The property \<open>notes\<close>; the bare name is a keyword of Isabelle.\<close>

definition notes' :: "Docstring \<Rightarrow> DocstringMeta list" where
  "notes' d = instances_of KNote (meta d)"


section \<open>Python strings\<close>

text \<open>
  A \<open>str\<close> is a list of code points. The model takes the code points below 256, one
  \<open>char\<close> each, so \<open>length\<close> is Python's \<open>len\<close>. The character classes are those of
  Python 3 on this range.
\<close>

text \<open>The characters \<open>str.strip()\<close> removes: those with \<open>str.isspace()\<close>.\<close>

definition py_isspace :: "char \<Rightarrow> bool" where
  "py_isspace c = (let n = (of_char c :: nat) in
     (9 \<le> n \<and> n \<le> 13) \<or> (28 \<le> n \<and> n \<le> 32) \<or> n = 133 \<or> n = 160)"

definition strip :: "string \<Rightarrow> string" where
  "strip s = rev (dropWhile py_isspace (rev (dropWhile py_isspace s)))"

text \<open>\<open>s.split(sep)\<close> for a separator of one character: never the empty list.\<close>

fun split_on :: "char \<Rightarrow> string \<Rightarrow> string list" where
  "split_on sep [] = [[]]"
| "split_on sep (c # cs) =
     (if c = sep then [] # split_on sep cs
      else (case split_on sep cs of [] \<Rightarrow> [[c]] | l # ls \<Rightarrow> (c # l) # ls))"

fun join :: "string \<Rightarrow> string list \<Rightarrow> string" where
  "join sep [] = []"
| "join sep [x] = x"
| "join sep (x # y # ys) = x @ sep @ join sep (y # ys)"

text \<open>\<open>s.expandtabs(8)\<close>: the column \<open>j\<close> restarts after a line feed or carriage return.\<close>

fun expandtabs_from :: "nat \<Rightarrow> string \<Rightarrow> string" where
  "expandtabs_from j [] = []"
| "expandtabs_from j (c # cs) =
     (if c = CHR 0x09 then
        (let incr = 8 - j mod 8 in replicate incr CHR '' '' @ expandtabs_from (j + incr) cs)
      else c # expandtabs_from (if c = CHR ''\<newline>'' \<or> c = CHR 0x0D then 0 else j + 1) cs)"

definition expandtabs :: "string \<Rightarrow> string" where
  "expandtabs s = expandtabs_from 0 s"

text \<open>\<open>s.rfind(c, 0, n)\<close>: the last index below \<open>n\<close> holding \<open>c\<close>; \<open>None\<close> is Python's -1.\<close>

definition rfind :: "char \<Rightarrow> nat \<Rightarrow> string \<Rightarrow> nat option" where
  "rfind c n s =
     (case dropWhile (\<lambda>x. x \<noteq> c) (rev (take n s)) of [] \<Rightarrow> None | x # r \<Rightarrow> Some (length r))"


section \<open>The standard library's textwrap, with the options \<open>fill(text, width)\<close> leaves at
  their defaults\<close>

text \<open>
  \<open>expand_tabs\<close>, \<open>replace_whitespace\<close>, \<open>break_long_words\<close>, \<open>drop_whitespace\<close> and
  \<open>break_on_hyphens\<close> are true, \<open>fix_sentence_endings\<close> is false, both indents are
  empty, \<open>tabsize\<close> is 8 and \<open>max_lines\<close> is \<open>None\<close>. The text followed is that of
  CPython 3.11.
\<close>

datatype error = AttributeError | TypeError | ValueError | IndexError

text \<open>\<open>_whitespace = '\t\n\x0b\x0c\r '\<close>\<close>

definition tw_whitespace :: "char \<Rightarrow> bool" where
  "tw_whitespace c = (let n = (of_char c :: nat) in (9 \<le> n \<and> n \<le> 13) \<or> n = 32)"

text \<open>The classes \<open>\w\<close>, \<open>[^\d\W]\<close> and \<open>[\w!"'&.,?]\<close> of \<open>wordsep_re\<close>.\<close>

definition re_w :: "char \<Rightarrow> bool" where
  "re_w c = (let n = (of_char c :: nat) in
     (48 \<le> n \<and> n \<le> 57) \<or> (65 \<le> n \<and> n \<le> 90) \<or> n = 95 \<or> (97 \<le> n \<and> n \<le> 122) \<or>
     n = 170 \<or> n = 178 \<or> n = 179 \<or> n = 181 \<or> n = 185 \<or> n = 186 \<or>
     (188 \<le> n \<and> n \<le> 190) \<or> (192 \<le> n \<and> n \<le> 214) \<or> (216 \<le> n \<and> n \<le> 246) \<or> 248 \<le> n)"

definition re_d :: "char \<Rightarrow> bool" where
  "re_d c = (let n = (of_char c :: nat) in 48 \<le> n \<and> n \<le> 57)"

definition letter :: "char \<Rightarrow> bool" where
  "letter c = (re_w c \<and> \<not> re_d c)"

definition word_punct :: "char \<Rightarrow> bool" where
  "word_punct c = (re_w c \<or> c = CHR ''!'' \<or> c = CHR 0x22 \<or> c = CHR 0x27 \<or> c = CHR ''&'' \<or>
                   c = CHR ''.'' \<or> c = CHR '','' \<or> c = CHR ''?'')"

definition munge_whitespace :: "string \<Rightarrow> string" where
  "munge_whitespace text = map (\<lambda>c. if tw_whitespace c then CHR '' '' else c) (expandtabs text)"

text \<open>
  \<open>wordsep_re\<close>, matched at one position of the text: \<open>behind\<close> holds the characters to
  the left of the position, nearest first (the lookbehinds read them), \<open>rest\<close> those from
  the position on.

  \<open>(?=-{2,}\w)\<close>: the greedy run of hyphens, at least two, then a word character. Giving
  hyphens back cannot help, since what follows is then a hyphen.
\<close>

definition em_dash_ahead :: "string \<Rightarrow> bool" where
  "em_dash_ahead rest =
     (let n = length (takeWhile (\<lambda>c. c = CHR ''-'') rest)
      in 2 \<le> n \<and> (case drop n rest of [] \<Rightarrow> False | c # cs \<Rightarrow> re_w c))"

text \<open>
  The hyphenated-word ending, tried where \<open>rest\<close> starts with the hyphen to consume:
  behind the hyphen two letters, or letter, hyphen, letter; ahead of it
  \<open>(?= lt -? lt)\<close>.
\<close>

fun hyphen_behind :: "string \<Rightarrow> bool" where
  "hyphen_behind (a # b # c # behind) =
     ((letter a \<and> letter b) \<or> (letter a \<and> b = CHR ''-'' \<and> letter c))"
| "hyphen_behind [a, b] = (letter a \<and> letter b)"
| "hyphen_behind behind = False"

fun hyphen_ahead :: "string \<Rightarrow> bool" where
  "hyphen_ahead (a # b # c # rest) =
     (letter a \<and> ((b = CHR ''-'' \<and> letter c) \<or> letter b))"
| "hyphen_ahead [a, b] = (letter a \<and> letter b)"
| "hyphen_ahead rest = False"

text \<open>
  The third alternative, \<open>nws+?\<close> followed by one of three endings. The lazy repetition
  has taken the characters up to the head of \<open>behind\<close>; the result is how many more
  characters the match takes. The endings are tried in the order of the pattern, and the
  repetition is extended by one character only when all three fail. At the end of the
  text or before whitespace the second ending matches, so this alternative matches at
  every character that is not whitespace.
\<close>

fun word_more :: "string \<Rightarrow> string \<Rightarrow> nat" where
  "word_more behind [] = 0"
| "word_more behind (c # cs) =
     (if c = CHR ''-'' \<and> hyphen_behind behind \<and> hyphen_ahead cs then 1
      else if tw_whitespace c then 0
      else if (case behind of [] \<Rightarrow> False | b # bs \<Rightarrow> word_punct b) \<and> em_dash_ahead (c # cs)
      then 0
      else Suc (word_more (c # behind) cs))"

text \<open>
  The three alternatives at a position whose character is \<open>c\<close>; the result is the
  length of the match after \<open>c\<close>.
\<close>

definition match_more :: "string \<Rightarrow> char \<Rightarrow> string \<Rightarrow> nat" where
  "match_more behind c cs =
     (if tw_whitespace c then length (takeWhile tw_whitespace cs)
      else if (case behind of [] \<Rightarrow> False | b # bs \<Rightarrow> word_punct b) \<and> em_dash_ahead (c # cs)
      then length (takeWhile (\<lambda>x. x = CHR ''-'') cs)
      else word_more (c # behind) cs)"

text \<open>
  \<open>[c for c in wordsep_re.split(text) if c]\<close>. The pattern matches at every position and
  never the empty string, so the pieces between matches are all empty and the result is
  the list of matches.
\<close>

fun wordsep_split :: "string \<Rightarrow> string \<Rightarrow> string list" where
  "wordsep_split behind [] = []"
| "wordsep_split behind (c # cs) =
     (let n = match_more behind c cs
      in (c # take n cs) # wordsep_split (rev (take n cs) @ c # behind) (drop n cs))"

definition split_chunks :: "string \<Rightarrow> string list" where
  "split_chunks text = wordsep_split [] (munge_whitespace text)"

text \<open>
  \<open>_handle_long_word\<close>, with \<open>break_long_words\<close> and \<open>break_on_hyphens\<close> true: the part of
  the chunk put on the line and the part left on the stack. It is called with
  \<open>cur_len \<le> width\<close>, so the subtraction is Python's.
\<close>

definition handle_long_word :: "string \<Rightarrow> nat \<Rightarrow> nat \<Rightarrow> string \<times> string" where
  "handle_long_word chunk cur_len width =
     (let space_left = (if width < 1 then 1 else width - cur_len);
          end = (if length chunk > space_left then
                   (case rfind CHR ''-'' space_left chunk of
                      None \<Rightarrow> space_left
                    | Some hyphen \<Rightarrow>
                        if hyphen > 0 \<and> list_ex (\<lambda>c. c \<noteq> CHR ''-'') (take hyphen chunk)
                        then hyphen + 1 else space_left)
                 else space_left)
      in (take end chunk, drop end chunk))"

text \<open>
  The inner loop of \<open>_wrap_chunks\<close>: chunks are popped while they fit. The stack of
  chunks is a list with its top at the head. The result is \<open>cur_line\<close>, \<open>cur_len\<close> and
  the stack left.
\<close>

fun take_fitting :: "nat \<Rightarrow> nat \<Rightarrow> string list \<Rightarrow> string list \<times> nat \<times> string list" where
  "take_fitting width cur_len [] = ([], cur_len, [])"
| "take_fitting width cur_len (c # cs) =
     (if cur_len + length c \<le> width then
        (case take_fitting width (cur_len + length c) cs of
           (line, n, rest) \<Rightarrow> (c # line, n, rest))
      else ([], cur_len, c # cs))"

text \<open>
  One pass of the outer loop, entered with a stack that is not empty: the line it
  appends, if any, and the stack it leaves. \<open>started\<close> says that \<open>lines\<close> is not empty.
\<close>

definition wrap_line :: "nat \<Rightarrow> bool \<Rightarrow> string list \<Rightarrow> string option \<times> string list" where
  "wrap_line width started chunks =
     (let chunks1 = (if strip (hd chunks) = [] \<and> started then tl chunks else chunks);
          (cur_line, cur_len, chunks2) = take_fitting width 0 chunks1;
          (cur_line2, chunks3) =
            (case chunks2 of
               [] \<Rightarrow> (cur_line, chunks2)
             | c # cs \<Rightarrow>
                 if length c > width then
                   (case handle_long_word c cur_len width of
                      (a, b) \<Rightarrow> (cur_line @ [a], b # cs))
                 else (cur_line, chunks2));
          cur_line3 = (if cur_line2 \<noteq> [] \<and> strip (last cur_line2) = []
                       then butlast cur_line2 else cur_line2)
      in (if cur_line3 \<noteq> [] then Some (concat cur_line3) else None, chunks3))"

definition chunks_size :: "string list \<Rightarrow> nat" where
  "chunks_size chunks = sum_list (map (\<lambda>c. Suc (length c)) chunks)"


text \<open>
  The outer loop consumes the stack: each pass drops a chunk, pops one, or shortens the
  chunk on top. These facts give the termination of \<open>wrap_loop\<close>.
\<close>

lemma take_fitting_split:
  "take_fitting w n cs = (line, n', rest) \<Longrightarrow> cs = line @ rest \<and> n' = n + length (concat line)"
proof (induction cs arbitrary: n line n' rest)
  case Nil
  then show ?case by simp
next
  case (Cons c cs)
  show ?case
  proof (cases "n + length c \<le> w")
    case True
    obtain l1 m1 r1 where t: "take_fitting w (n + length c) cs = (l1, m1, r1)"
      by (cases "take_fitting w (n + length c) cs") auto
    from Cons.IH[OF t] Cons.prems True t show ?thesis by auto
  next
    case False
    with Cons.prems show ?thesis by auto
  qed
qed

lemma take_fitting_bound:
  "take_fitting w n cs = (line, n', rest) \<Longrightarrow> n \<le> w \<Longrightarrow> n' \<le> w"
proof (induction cs arbitrary: n line n' rest)
  case Nil
  then show ?case by simp
next
  case (Cons c cs)
  then show ?case by (auto split: if_splits prod.splits)
qed

lemma take_fitting_stuck:
  "take_fitting w n cs = ([], n', c # rest) \<Longrightarrow> w < n + length c"
  by (cases cs) (auto split: if_splits prod.splits)

lemma chunks_size_append [simp]: "chunks_size (xs @ ys) = chunks_size xs + chunks_size ys"
  by (simp add: chunks_size_def)

lemma chunks_size_Cons [simp]: "chunks_size (x # xs) = Suc (length x) + chunks_size xs"
  by (simp add: chunks_size_def)

lemma chunks_size_Nil [simp]: "chunks_size [] = 0"
  by (simp add: chunks_size_def)

lemma handle_long_word_parts:
  "handle_long_word c n w = (a, b) \<Longrightarrow> c = a @ b"
  by (auto simp: handle_long_word_def Let_def)

lemma rfind_less: "rfind c n s = Some i \<Longrightarrow> i < n \<and> i < length s"
proof -
  assume a: "rfind c n s = Some i"
  then obtain x r where d: "dropWhile (\<lambda>x. x \<noteq> c) (rev (take n s)) = x # r" and i: "i = length r"
    by (auto simp: rfind_def split: list.splits)
  have "length (dropWhile (\<lambda>x. x \<noteq> c) (rev (take n s))) \<le> length (rev (take n s))"
    by (rule length_dropWhile_le)
  with d i show ?thesis by auto
qed

lemma handle_long_word_progress:
  assumes "handle_long_word c 0 w = (a, b)" "w < length c"
  shows "length b < length c"
proof -
  let ?sl = "if w < 1 then 1 else w - 0"
  have sl: "0 < ?sl" by simp
  show ?thesis
    using assms
    by (auto simp: handle_long_word_def Let_def split: option.splits if_splits)
qed

lemma wrap_line_decreases:
  assumes "chunks \<noteq> []"
  shows "chunks_size (snd (wrap_line w started chunks)) < chunks_size chunks"
proof -
  obtain c cs where ch: "chunks = c # cs" using assms by (cases chunks) auto
  define chunks1 where "chunks1 = (if strip (hd chunks) = [] \<and> started then tl chunks else chunks)"
  obtain line n rest where tf: "take_fitting w 0 chunks1 = (line, n, rest)"
    by (cases "take_fitting w 0 chunks1") auto
  from take_fitting_split[OF tf] have sp: "chunks1 = line @ rest" by simp
  define chunks3 where "chunks3 =
     (case rest of [] \<Rightarrow> rest
      | c # cs \<Rightarrow> if length c > w then (case handle_long_word c n w of (a, b) \<Rightarrow> b # cs) else rest)"
  have snd_eq: "snd (wrap_line w started chunks) = chunks3"
    using tf by (auto simp: wrap_line_def chunks1_def chunks3_def Let_def split: list.splits prod.splits)
  have le3: "chunks_size chunks3 \<le> chunks_size rest"
    by (auto simp: chunks3_def split: list.splits prod.splits dest: handle_long_word_parts)
  have le1: "chunks_size chunks1 \<le> chunks_size chunks"
    by (auto simp: chunks1_def ch)
  show ?thesis
  proof (cases "chunks1 = chunks")
    case False
    then have "chunks_size chunks1 < chunks_size chunks"
      by (auto simp: chunks1_def ch split: if_splits)
    with le3 sp show ?thesis unfolding snd_eq by simp
  next
    case True
    show ?thesis
    proof (cases line)
      case (Cons l ls)
      with sp have "chunks_size rest < chunks_size chunks1" by simp
      with le3 True show ?thesis unfolding snd_eq by simp
    next
      case Nil
      with sp True ch have r: "rest = c # cs" by simp
      from tf Nil r True ch have n0: "n = 0" by (auto split: if_splits prod.splits)
      from tf Nil r have "w < 0 + length c" by (auto dest: take_fitting_stuck)
      then have long: "w < length c" by simp
      obtain a b where h: "handle_long_word c 0 w = (a, b)" by (cases "handle_long_word c 0 w") auto
      from handle_long_word_progress[OF h long] have "length b < length c" .
      then have "chunks_size chunks3 < chunks_size chunks"
        using r long h n0 ch by (simp add: chunks3_def)
      then show ?thesis unfolding snd_eq .
    qed
  qed
qed

text \<open>
  \<open>while chunks:\<close> of \<open>_wrap_chunks\<close>, with \<open>lines\<close> the lines appended so far.
\<close>

function wrap_loop :: "nat \<Rightarrow> string list \<Rightarrow> string list \<Rightarrow> string list" where
  "wrap_loop width lines chunks =
     (if chunks = [] then lines
      else (case wrap_line width (lines \<noteq> []) chunks of
              (None, chunks') \<Rightarrow> wrap_loop width lines chunks'
            | (Some line, chunks') \<Rightarrow> wrap_loop width (lines @ [line]) chunks'))"
  by pat_completeness auto
termination
proof (relation "measure (\<lambda>(width, lines, chunks). chunks_size chunks)", goal_cases)
  case 1
  show ?case by simp
next
  case (2 width lines chunks x y)
  then have "snd (wrap_line width (lines \<noteq> []) chunks) = y" by (metis snd_conv)
  with 2 wrap_line_decreases[of chunks width "lines \<noteq> []"] show ?case by simp
next
  case (3 width lines chunks x y l)
  then have "snd (wrap_line width (lines \<noteq> []) chunks) = y" by (metis snd_conv)
  with 3 wrap_line_decreases[of chunks width "lines \<noteq> []"] show ?case by simp
qed


declare wrap_loop.simps [simp del]

text \<open>
  \<open>wrap(text, width)\<close>: \<open>_split_chunks\<close>, then \<open>_wrap_chunks\<close>, which raises on a width
  that is not positive before it looks at the chunks.
\<close>

definition wrap :: "string \<Rightarrow> int \<Rightarrow> error + string list" where
  "wrap text width =
     (let chunks = split_chunks text
      in if width \<le> 0 then Inl ValueError else Inr (wrap_loop (nat width) [] chunks))"

definition fill :: "string \<Rightarrow> int \<Rightarrow> error + string" where
  "fill text width =
     (case wrap text width of Inl e \<Rightarrow> Inl e | Inr lines \<Rightarrow> Inr (join [CHR ''\<newline>''] lines))"


section \<open>The normalization pass (common.py, lines 236-254)\<close>

text \<open>
  The values the two loop variables of line 246 hold: \<open>enumerate\<close> yields the pair
  (index, element), so \<open>itm\<close> is bound to an \<open>int\<close> and \<open>idx\<close> to a \<open>str\<close>.
\<close>

datatype pyval = PyInt int | PyStr string

text \<open>\<open>v.strip()\<close>: an \<open>int\<close> has no such attribute.\<close>

fun py_strip :: "pyval \<Rightarrow> error + string" where
  "py_strip (PyInt i) = Inl AttributeError"
| "py_strip (PyStr s) = Inr (strip s)"

text \<open>\<open>xs[k] = v\<close>: a list index is an integer, and in range.\<close>

fun py_setitem :: "string list \<Rightarrow> pyval \<Rightarrow> string \<Rightarrow> error + string list" where
  "py_setitem xs (PyStr k) v = Inl TypeError"
| "py_setitem xs (PyInt k) v =
     (let n = int (length xs); j = (if k < 0 then n + k else k)
      in if 0 \<le> j \<and> j < n then Inr (xs[nat j := v]) else Inl IndexError)"

lemma py_setitem_length: "py_setitem xs k v = Inr ys \<Longrightarrow> length ys = length xs"
  by (cases k) (auto simp: Let_def split: if_splits)

text \<open>
  Lines 246-247, \<open>for itm, idx in enumerate(split_description): ...\<close>, from position
  \<open>i\<close> of the list on. The iterator reads the list as the body has left it.
\<close>

function rewrap_lines :: "int \<Rightarrow> nat \<Rightarrow> string list \<Rightarrow> error + string list" where
  "rewrap_lines width i split_description =
     (if i < length split_description then
        (let itm = PyInt (int i); idx = PyStr (split_description ! i)
         in case py_strip itm of
              Inl e \<Rightarrow> Inl e
            | Inr stripped \<Rightarrow>
                (case fill stripped width of
                   Inl e \<Rightarrow> Inl e
                 | Inr filled \<Rightarrow>
                     (case py_setitem split_description idx filled of
                        Inl e \<Rightarrow> Inl e
                      | Inr split_description' \<Rightarrow>
                          rewrap_lines width (i + 1) split_description')))
      else Inr split_description)"
  by pat_completeness auto
termination
  by (relation "measure (\<lambda>(width, i, sd). length sd - i)") (auto dest: py_setitem_length)

declare rewrap_lines.simps [simp del]

text \<open>The truth value of an optional string: \<open>None\<close> and the empty string are false.\<close>

definition truthy :: "string option \<Rightarrow> bool" where
  "truthy x = (case x of None \<Rightarrow> False | Some s \<Rightarrow> s \<noteq> [])"

text \<open>Lines 237-240: \<open>if x: x = textwrap.fill(x.strip(), width)\<close>.\<close>

definition rewrap_field :: "string option \<Rightarrow> int \<Rightarrow> error + string option" where
  "rewrap_field x width =
     (case x of
        None \<Rightarrow> Inr None
      | Some s \<Rightarrow>
          if s = [] then Inr (Some s)
          else (case fill (strip s) width of Inl e \<Rightarrow> Inl e | Inr t \<Rightarrow> Inr (Some t)))"

text \<open>Line 252: \<open>[arg.strip() for arg in meta.args if arg.strip()]\<close>.\<close>

definition clean_args :: "string list \<Rightarrow> string list" where
  "clean_args as = map strip (filter (\<lambda>arg. strip arg \<noteq> []) as)"

text \<open>
  The body of the loop over \<open>docstring.meta\<close> (lines 243-252) on one fragment: the
  exception it raises, if any, and the fragment as the body leaves it. An exception in
  the first \<open>if\<close> leaves the fragment as it was, since \<open>meta.description\<close> is assigned
  after the inner loop only.
\<close>

definition normalize_meta :: "int \<Rightarrow> DocstringMeta \<Rightarrow> error option \<times> DocstringMeta" where
  "normalize_meta width m =
     (case (case description m of
              None \<Rightarrow> Inr m
            | Some s \<Rightarrow>
                if s = [] then Inr m
                else (case rewrap_lines width 0 (split_on CHR ''\<newline>'' s) of
                        Inl e \<Rightarrow> Inl e
                      | Inr split_description \<Rightarrow>
                          Inr (m\<lparr>description :=
                                   Some (join [CHR ''\<newline>''] split_description)\<rparr>))) of
        Inl e \<Rightarrow> (Some e, m)
      | Inr m1 \<Rightarrow>
          (None, if args m1 \<noteq> [] then m1\<lparr>args := clean_args (args m1)\<rparr> else m1))"

text \<open>
  The loop over \<open>docstring.meta\<close>: it stops at the first exception, with the fragments
  before it rewritten and those after it untouched.
\<close>

fun normalize_metas :: "int \<Rightarrow> DocstringMeta list \<Rightarrow> error option \<times> DocstringMeta list" where
  "normalize_metas width [] = (None, [])"
| "normalize_metas width (m # ms) =
     (case normalize_meta width m of
        (Some e, m') \<Rightarrow> (Some e, m' # ms)
      | (None, m') \<Rightarrow>
          (case normalize_metas width ms of (r, ms') \<Rightarrow> (r, m' # ms')))"

text \<open>
  \<open>format_docstring_to_pep257(docstring, width)\<close>, the operation the specification calls
  \<open>normalize\<close>. The function rewrites its argument in place, so the model returns the
  exception raised, \<open>None\<close> for a normal return, together with the docstring as the call
  leaves it; on a normal return that is also the value returned.
\<close>

definition format_docstring_to_pep257 :: "Docstring \<Rightarrow> int \<Rightarrow> error option \<times> Docstring" where
  "format_docstring_to_pep257 docstring width =
     (case rewrap_field (short_description docstring) width of
        Inl e \<Rightarrow> (Some e, docstring)
      | Inr s \<Rightarrow>
          (let d1 = docstring\<lparr>short_description := s\<rparr>
           in case rewrap_field (long_description d1) width of
                Inl e \<Rightarrow> (Some e, d1)
              | Inr l \<Rightarrow>
                  (let d2 = d1\<lparr>long_description := l\<rparr>
                   in case normalize_metas width (meta d2) of
                        (r, ms) \<Rightarrow> (r, d2\<lparr>meta := ms\<rparr>))))"


section \<open>Notions the properties are stated with\<close>

text \<open>The text with the characters of \<open>str.isspace()\<close> removed.\<close>

definition nonspace :: "string \<Rightarrow> string" where
  "nonspace s = filter (\<lambda>c. \<not> py_isspace c) s"

text \<open>
  \<open>t\<close> is \<open>s\<close> stripped and refilled to \<open>width\<close>: it is what \<open>textwrap.fill\<close> returns,
  none of its lines is longer than \<open>width\<close>, and it differs from \<open>s\<close> in whitespace
  only.
\<close>

definition rewrapped :: "int \<Rightarrow> string \<Rightarrow> string \<Rightarrow> bool" where
  "rewrapped width s t =
     (fill (strip s) width = Inr t \<and>
      list_all (\<lambda>l. length l \<le> nat width) (split_on CHR ''\<newline>'' t) \<and>
      nonspace t = nonspace s)"

text \<open>
  A description that is already at or under the width with no excess whitespace: once
  stripped it is at most \<open>width\<close> long and its only whitespace is the space.
\<close>

definition tidy :: "int \<Rightarrow> string option \<Rightarrow> bool" where
  "tidy width x =
     (case x of
        None \<Rightarrow> True
      | Some s \<Rightarrow> length (strip s) \<le> nat width \<and>
                  list_all (\<lambda>c. tw_whitespace c \<longrightarrow> c = CHR '' '') (strip s))"


section \<open>The wrapping loop\<close>


lemma wrap_loop_Nil [simp]: "wrap_loop w lines [] = lines"
  by (subst wrap_loop.simps) simp

lemma wrap_loop_step:
  "chunks \<noteq> [] \<Longrightarrow> wrap_line w (lines \<noteq> []) chunks = (r, chunks') \<Longrightarrow>
   wrap_loop w lines chunks = wrap_loop w (case r of None \<Rightarrow> lines | Some l \<Rightarrow> lines @ [l]) chunks'"
  by (subst wrap_loop.simps) (simp split: option.splits)


lemma handle_long_word_fits:
  assumes "handle_long_word c n w = (a, b)" "1 \<le> w"
  shows "length a \<le> w - n"
proof -
  have "\<And>h. rfind CHR ''-'' (w - n) c = Some h \<Longrightarrow> h + 1 \<le> w - n"
    using rfind_less by fastforce
  with assms show ?thesis
    by (auto simp: handle_long_word_def Let_def split: option.splits if_splits)
qed

lemma length_concat_butlast: "length (concat (butlast xs)) \<le> length (concat xs)"
  by (induction xs) auto

lemma wrap_line_width:
  assumes "wrap_line w started chunks = (Some l, rest)" "1 \<le> w"
  shows "length l \<le> w"
proof -
  define chunks1 where "chunks1 = (if strip (hd chunks) = [] \<and> started then tl chunks else chunks)"
  obtain line n chunks2 where tf: "take_fitting w 0 chunks1 = (line, n, chunks2)"
    by (cases "take_fitting w 0 chunks1") auto
  from take_fitting_split[OF tf] have n: "n = length (concat line)" by simp
  from take_fitting_bound[OF tf] have nw: "n \<le> w" by simp
  define cur_line2 where "cur_line2 =
     (case chunks2 of [] \<Rightarrow> line
      | c # cs \<Rightarrow> if length c > w then (case handle_long_word c n w of (a, b) \<Rightarrow> line @ [a]) else line)"
  have l2: "length (concat cur_line2) \<le> w"
  proof (cases chunks2)
    case Nil
    with n nw show ?thesis by (simp add: cur_line2_def)
  next
    case (Cons c cs)
    obtain a b where h: "handle_long_word c n w = (a, b)" by (cases "handle_long_word c n w") auto
    from handle_long_word_fits[OF h assms(2)] have "length a \<le> w - n" .
    with nw have "n + length a \<le> w" by arith
    then have "length (concat (line @ [a])) \<le> w" using n by simp
    with n nw h Cons show ?thesis by (simp add: cur_line2_def del: concat_append)
  qed
  define cur_line3 where "cur_line3 = (if cur_line2 \<noteq> [] \<and> strip (last cur_line2) = []
                       then butlast cur_line2 else cur_line2)"
  have l3: "length (concat cur_line3) \<le> w"
    using l2 length_concat_butlast[of cur_line2] by (simp add: cur_line3_def)
  have "fst (wrap_line w started chunks) = (if cur_line3 \<noteq> [] then Some (concat cur_line3) else None)"
    using tf
    by (auto simp: wrap_line_def chunks1_def cur_line2_def cur_line3_def Let_def
             split: list.splits prod.splits)
  with assms(1) have "l = concat cur_line3" by (auto split: if_splits)
  with l3 show ?thesis by simp
qed

lemma wrap_loop_width:
  "1 \<le> w \<Longrightarrow> list_all (\<lambda>l. length l \<le> w) lines \<Longrightarrow>
   list_all (\<lambda>l. length l \<le> w) (wrap_loop w lines chunks)"
proof (induction w lines chunks rule: wrap_loop.induct)
  case (1 width lines chunks)
  show ?case
  proof (cases "chunks = []")
    case True
    with 1 show ?thesis by (simp add: wrap_loop_step)
  next
    case False
    obtain r chunks' where wl: "wrap_line width (lines \<noteq> []) chunks = (r, chunks')"
      by (cases "wrap_line width (lines \<noteq> []) chunks") auto
    show ?thesis
    proof (cases r)
      case None
      with 1 False wl show ?thesis by (simp add: wrap_loop_step)
    next
      case (Some l)
      with wl 1 have "length l \<le> width" by (auto dest: wrap_line_width)
      with 1 False wl Some show ?thesis by (simp add: wrap_loop_step)
    qed
  qed
qed

lemma wordsep_split_concat: "concat (wordsep_split behind text) = text"
proof (induction behind "text" rule: wordsep_split.induct)
  case (1 behind)
  show ?case by simp
next
  case (2 behind c cs)
  then show ?case by (simp add: Let_def)
qed

lemma strip_empty_iff: "strip s = [] \<longleftrightarrow> list_all py_isspace s"
proof -
  have "dropWhile py_isspace (rev (dropWhile py_isspace s)) = [] \<longleftrightarrow> dropWhile py_isspace s = []"
  proof
    assume a: "dropWhile py_isspace (rev (dropWhile py_isspace s)) = []"
    show "dropWhile py_isspace s = []"
    proof (rule ccontr)
      assume n: "dropWhile py_isspace s \<noteq> []"
      then have "\<not> py_isspace (hd (dropWhile py_isspace s))" by (rule hd_dropWhile)
      moreover from a have "\<forall>x \<in> set (rev (dropWhile py_isspace s)). py_isspace x"
        by (simp add: dropWhile_eq_Nil_conv)
      ultimately show False using n by (metis hd_in_set set_rev)
    qed
  next
    assume "dropWhile py_isspace s = []"
    then show "dropWhile py_isspace (rev (dropWhile py_isspace s)) = []"
      by (simp only: rev.simps dropWhile.simps)
  qed
  then have "strip s = [] \<longleftrightarrow> dropWhile py_isspace s = []"
    by (simp only: strip_def rev_is_Nil_conv)
  also have "\<dots> \<longleftrightarrow> list_all py_isspace s" by (simp add: dropWhile_eq_Nil_conv list_all_iff)
  finally show ?thesis .
qed

lemma wrap_line_parts:
  assumes "wrap_line w started chunks = (r, rest)" "chunks \<noteq> []"
  shows "\<exists>pre post. concat chunks = pre @ (case r of None \<Rightarrow> [] | Some l \<Rightarrow> l) @ post @ concat rest
           \<and> list_all py_isspace pre \<and> list_all py_isspace post"
proof -
  define chunks1 where "chunks1 = (if strip (hd chunks) = [] \<and> started then tl chunks else chunks)"
  obtain pre where pre: "concat chunks = pre @ concat chunks1" "list_all py_isspace pre"
  proof (cases "strip (hd chunks) = [] \<and> started")
    case True
    from assms(2) obtain c cs where ch: "chunks = c # cs" by (cases chunks) auto
    with True have "concat chunks = c @ concat chunks1" "list_all py_isspace c"
      by (simp_all add: chunks1_def strip_empty_iff)
    then show ?thesis using that by blast
  next
    case False
    then have "concat chunks = [] @ concat chunks1" by (auto simp: chunks1_def)
    then show ?thesis using that[of "[]"] by simp
  qed
  obtain line n chunks2 where tf: "take_fitting w 0 chunks1 = (line, n, chunks2)"
    by (cases "take_fitting w 0 chunks1") auto
  from take_fitting_split[OF tf] have c1: "chunks1 = line @ chunks2" by simp
  define cur_line2 where "cur_line2 =
     (case chunks2 of [] \<Rightarrow> line
      | c # cs \<Rightarrow> if length c > w then (case handle_long_word c n w of (a, b) \<Rightarrow> line @ [a]) else line)"
  define chunks3 where "chunks3 =
     (case chunks2 of [] \<Rightarrow> chunks2
      | c # cs \<Rightarrow> if length c > w then (case handle_long_word c n w of (a, b) \<Rightarrow> b # cs) else chunks2)"
  have c2: "concat chunks1 = concat cur_line2 @ concat chunks3"
    unfolding c1 cur_line2_def chunks3_def
    by (auto split: list.splits prod.splits dest: handle_long_word_parts)
  define cur_line3 where "cur_line3 = (if cur_line2 \<noteq> [] \<and> strip (last cur_line2) = []
                       then butlast cur_line2 else cur_line2)"
  obtain post where post: "concat cur_line2 = concat cur_line3 @ post" "list_all py_isspace post"
  proof (cases "cur_line2 \<noteq> [] \<and> strip (last cur_line2) = []")
    case True
    then have "cur_line2 = butlast cur_line2 @ [last cur_line2]" by simp
    then have "concat cur_line2 = concat (butlast cur_line2) @ last cur_line2"
      by (metis concat.simps(1,2) concat_append append_Nil2)
    with True show ?thesis using that by (simp add: cur_line3_def strip_empty_iff)
  next
    case False
    then have "concat cur_line2 = concat cur_line3 @ []" by (auto simp: cur_line3_def)
    then show ?thesis using that[of "[]"] by simp
  qed
  have w: "wrap_line w started chunks = (if cur_line3 \<noteq> [] then Some (concat cur_line3) else None, chunks3)"
    using tf
    by (auto simp: wrap_line_def chunks1_def cur_line2_def cur_line3_def chunks3_def Let_def
             split: list.splits prod.splits)
  with assms(1) have r: "(case r of None \<Rightarrow> [] | Some l \<Rightarrow> l) = concat cur_line3" and rest: "rest = chunks3"
    by (auto split: if_splits)
  have "concat chunks = pre @ (case r of None \<Rightarrow> [] | Some l \<Rightarrow> l) @ post @ concat rest"
    using pre(1) c2 post(1) r rest by simp
  with pre(2) post(2) show ?thesis by blast
qed

lemma nonspace_append [simp]: "nonspace (xs @ ys) = nonspace xs @ nonspace ys"
  by (simp add: nonspace_def)

lemma nonspace_all_space: "list_all py_isspace s \<Longrightarrow> nonspace s = []"
  by (induction s) (auto simp: nonspace_def)

lemma wrap_loop_nonspace:
  "nonspace (concat (wrap_loop w lines chunks)) = nonspace (concat lines) @ nonspace (concat chunks)"
proof (induction w lines chunks rule: wrap_loop.induct)
  case (1 width lines chunks)
  show ?case
  proof (cases "chunks = []")
    case True
    then show ?thesis by (simp add: nonspace_def)
  next
    case False
    obtain r chunks' where wl: "wrap_line width (lines \<noteq> []) chunks = (r, chunks')"
      by (cases "wrap_line width (lines \<noteq> []) chunks") auto
    from wrap_line_parts[OF wl False] obtain pre post where
      p: "concat chunks = pre @ (case r of None \<Rightarrow> [] | Some l \<Rightarrow> l) @ post @ concat chunks'"
         "list_all py_isspace pre" "list_all py_isspace post" by blast
    then have ns: "nonspace (concat chunks) = nonspace (case r of None \<Rightarrow> [] | Some l \<Rightarrow> l) @ nonspace (concat chunks')"
      by (simp add: nonspace_all_space)
    show ?thesis
    proof (cases r)
      case None
      with 1(1)[OF False wl[symmetric]] False wl ns show ?thesis
        by (simp add: wrap_loop_step nonspace_def)
    next
      case (Some l)
      with 1(2)[OF False wl[symmetric]] False wl ns show ?thesis
        by (simp add: wrap_loop_step)
    qed
  qed
qed

lemma wrap_loop_chars:
  "set (concat (wrap_loop w lines chunks)) \<subseteq> set (concat lines) \<union> set (concat chunks)"
proof (induction w lines chunks rule: wrap_loop.induct)
  case (1 width lines chunks)
  show ?case
  proof (cases "chunks = []")
    case True
    then show ?thesis by (simp add: wrap_loop_step)
  next
    case False
    obtain r chunks' where wl: "wrap_line width (lines \<noteq> []) chunks = (r, chunks')"
      by (cases "wrap_line width (lines \<noteq> []) chunks") auto
    from wrap_line_parts[OF wl False] obtain pre post where
      p: "concat chunks = pre @ (case r of None \<Rightarrow> [] | Some l \<Rightarrow> l) @ post @ concat chunks'"
      by blast
    then have sub: "set (case r of None \<Rightarrow> [] | Some l \<Rightarrow> l) \<union> set (concat chunks') \<subseteq> set (concat chunks)"
      by (metis Un_subset_iff set_append sup_ge1 sup_ge2 subset_trans)
    show ?thesis
    proof (cases r)
      case None
      have "wrap_loop width lines chunks = wrap_loop width lines chunks'"
        using False wl None by (simp add: wrap_loop_step)
      moreover have "set (concat (wrap_loop width lines chunks')) \<subseteq> set (concat lines) \<union> set (concat chunks')"
        using 1(1)[OF False wl[symmetric]] None by simp
      moreover have "set (concat chunks') \<subseteq> set (concat chunks)" using sub by simp
      ultimately show ?thesis by (simp only:) blast
    next
      case (Some l)
      have "wrap_loop width lines chunks = wrap_loop width (lines @ [l]) chunks'"
        using False wl Some by (simp add: wrap_loop_step)
      moreover have "set (concat (wrap_loop width (lines @ [l]) chunks'))
            \<subseteq> (set (concat lines) \<union> set l) \<union> set (concat chunks')"
        using 1(2)[OF False wl[symmetric]] Some by simp
      moreover have "set l \<union> set (concat chunks') \<subseteq> set (concat chunks)" using sub Some by simp
      ultimately show ?thesis by (simp only:) blast
    qed
  qed
qed


section \<open>Filling a paragraph\<close>

lemma tw_whitespace_isspace: "tw_whitespace c \<Longrightarrow> py_isspace c"
  by (auto simp: tw_whitespace_def py_isspace_def Let_def)

lemma isspace_chars [simp]:
  "py_isspace CHR '' ''" "py_isspace CHR 0x09" "py_isspace CHR ''\<newline>''"
  "tw_whitespace CHR ''\<newline>''"
  by (simp_all add: py_isspace_def tw_whitespace_def)

lemma nonspace_Cons:
  "nonspace (c # cs) = (if py_isspace c then nonspace cs else c # nonspace cs)"
  by (simp add: nonspace_def)

lemma nonspace_Nil [simp]: "nonspace [] = []"
  by (simp add: nonspace_def)

lemma nonspace_replicate_space [simp]: "nonspace (replicate n CHR '' '') = []"
  by (induction n) (simp_all add: nonspace_Cons)

lemma nonspace_expandtabs_from: "nonspace (expandtabs_from j s) = nonspace s"
  by (induction j s rule: expandtabs_from.induct) (simp_all add: nonspace_Cons Let_def)

lemma nonspace_munge: "nonspace (munge_whitespace s) = nonspace s"
proof -
  have "nonspace (map (\<lambda>c. if tw_whitespace c then CHR '' '' else c) t) = nonspace t" for t
    by (induction t) (auto simp: nonspace_Cons dest: tw_whitespace_isspace)
  then show ?thesis by (simp add: munge_whitespace_def expandtabs_def nonspace_expandtabs_from)
qed

lemma munge_no_newline: "CHR ''\<newline>'' \<notin> set (munge_whitespace s)"
  by (auto simp: munge_whitespace_def)

lemma nonspace_dropWhile: "nonspace (dropWhile py_isspace s) = nonspace s"
  by (induction s) (simp_all add: nonspace_Cons)

lemma nonspace_rev: "nonspace (rev s) = rev (nonspace s)"
  by (simp add: nonspace_def rev_filter)

lemma nonspace_strip: "nonspace (strip s) = nonspace s"
  by (simp add: strip_def nonspace_rev nonspace_dropWhile)

lemma nonspace_join: "nonspace (join [CHR ''\<newline>''] ls) = nonspace (concat ls)"
  by (induction "[CHR ''\<newline>'']" ls rule: join.induct) (simp_all add: nonspace_Cons)

lemma split_on_no_sep: "sep \<notin> set s \<Longrightarrow> split_on sep s = [s]"
  by (induction s) auto

lemma split_on_append:
  "sep \<notin> set x \<Longrightarrow> split_on sep (x @ sep # s) = x # split_on sep s"
  by (induction x) (auto split: list.splits)

lemma split_on_join:
  "ls \<noteq> [] \<Longrightarrow> sep \<notin> set (concat ls) \<Longrightarrow> split_on sep (join [sep] ls) = ls"
proof (induction "[sep]" ls rule: join.induct)
  case 1
  then show ?case by simp
next
  case (2 x)
  then show ?case by (simp add: split_on_no_sep)
next
  case (3 x y ys)
  then show ?case by (simp add: split_on_append)
qed

lemma fill_pos: "0 < w \<Longrightarrow>
  fill s w = Inr (join [CHR ''\<newline>''] (wrap_loop (nat w) [] (split_chunks s)))"
  by (simp add: fill_def wrap_def)

lemma fill_nonpos: "w \<le> 0 \<Longrightarrow> fill s w = Inl ValueError"
  by (simp add: fill_def wrap_def)

lemma wrap_no_newline:
  "CHR ''\<newline>'' \<notin> set (concat (wrap_loop w [] (split_chunks s)))"
proof -
  have "set (concat (wrap_loop w [] (split_chunks s))) \<subseteq> set (concat (split_chunks s))"
    using wrap_loop_chars[of w "[]" "split_chunks s"] by simp
  also have "concat (split_chunks s) = munge_whitespace s"
    by (simp add: split_chunks_def wordsep_split_concat)
  finally show ?thesis using munge_no_newline by blast
qed

lemma fill_lines:
  assumes "0 < w" "fill s w = Inr t"
  shows "list_all (\<lambda>l. length l \<le> nat w) (split_on CHR ''\<newline>'' t)"
proof -
  let ?ls = "wrap_loop (nat w) [] (split_chunks s)"
  from assms have t: "t = join [CHR ''\<newline>''] ?ls" by (simp add: fill_pos)
  have b: "list_all (\<lambda>l. length l \<le> nat w) ?ls"
    using assms(1) by (intro wrap_loop_width) simp_all
  show ?thesis
  proof (cases "?ls = []")
    case True
    with t show ?thesis by simp
  next
    case False
    then have "split_on CHR ''\<newline>'' t = ?ls"
      unfolding t using wrap_no_newline[of "nat w" s] by (rule split_on_join)
    with b show ?thesis by simp
  qed
qed

lemma fill_nonspace:
  assumes "fill s w = Inr t"
  shows "nonspace t = nonspace s"
proof -
  from assms have w: "0 < w" by (cases "0 < w") (simp_all add: fill_nonpos)
  with assms have "t = join [CHR ''\<newline>''] (wrap_loop (nat w) [] (split_chunks s))"
    by (simp add: fill_pos)
  then have "nonspace t = nonspace (concat (split_chunks s))"
    by (simp add: nonspace_join wrap_loop_nonspace)
  then show ?thesis by (simp add: split_chunks_def wordsep_split_concat nonspace_munge)
qed


section \<open>The loop over the fragments\<close>


lemma split_on_not_Nil: "split_on sep s \<noteq> []"
  by (induction s) (auto split: list.splits)

lemma rewrap_lines_raises:
  "rewrap_lines width i sd = (if i < length sd then Inl AttributeError else Inr sd)"
  by (subst rewrap_lines.simps) simp

lemma normalize_meta_eq:
  "normalize_meta width m =
     (if truthy (description m) then (Some AttributeError, m)
      else (None, m\<lparr>args := clean_args (args m)\<rparr>))"
proof -
  have "clean_args [] = []" by (simp add: clean_args_def)
  then have e: "(if args m \<noteq> [] then m\<lparr>args := clean_args (args m)\<rparr> else m) = m\<lparr>args := clean_args (args m)\<rparr>"
    by (cases "args m = []") simp_all
  show ?thesis
  proof (cases "description m")
    case None
    then show ?thesis using e by (simp add: normalize_meta_def truthy_def)
  next
    case (Some s)
    have "0 < length (split_on CHR ''\<newline>'' s)" using split_on_not_Nil by blast
    with Some show ?thesis using e
      by (simp add: normalize_meta_def truthy_def rewrap_lines_raises)
  qed
qed

lemma normalize_metas_frame:
  "list_all2 (\<lambda>m m'. m' = m\<lparr>description := description m', args := args m'\<rparr>)
     ms (snd (normalize_metas width ms))"
proof (induction ms)
  case Nil
  show ?case by simp
next
  case (Cons m ms)
  have refl: "list_all2 (\<lambda>m m'. m' = m\<lparr>description := description m', args := args m'\<rparr>) ms ms"
    by (simp add: list_all2_same)
  show ?case using Cons refl
    by (auto simp: normalize_meta_eq split: prod.splits)
qed

lemma normalize_metas_outcome:
  "fst (normalize_metas width ms) =
     (if list_ex (\<lambda>m. truthy (description m)) ms then Some AttributeError else None)"
  by (induction ms) (auto simp: normalize_meta_eq split: prod.splits)

lemma normalize_metas_returns:
  "fst (normalize_metas width ms) = None \<Longrightarrow>
   snd (normalize_metas width ms) = map (\<lambda>m. m\<lparr>args := clean_args (args m)\<rparr>) ms"
  by (induction ms) (auto simp: normalize_meta_eq split: prod.splits if_splits)

lemma normalize_metas_empty:
  "list_all2 (\<lambda>m m'. (description m = Some [] \<longrightarrow> description m' = Some []) \<and>
                       (args m = [] \<longrightarrow> args m' = []) \<and>
                       (\<not> truthy (description m) \<and> args m = [] \<longrightarrow> m' = m))
     ms (snd (normalize_metas width ms))"
proof (induction ms)
  case Nil
  show ?case by simp
next
  case (Cons m ms)
  have refl: "list_all2 (\<lambda>m m'. (description m = Some [] \<longrightarrow> description m' = Some []) \<and>
                       (args m = [] \<longrightarrow> args m' = []) \<and>
                       (\<not> truthy (description m) \<and> args m = [] \<longrightarrow> m' = m)) ms ms"
    by (simp add: list_all2_same)
  have c: "clean_args [] = []" by (simp add: clean_args_def)
  show ?case using Cons refl c
    by (auto simp: normalize_meta_eq split: prod.splits)
qed

lemma rewrap_field_pos:
  "0 < w \<Longrightarrow> rewrap_field x w =
     Inr (case x of None \<Rightarrow> None
          | Some s \<Rightarrow> Some (join [CHR ''\<newline>''] (wrap_loop (nat w) [] (split_chunks (strip s)))))"
proof (cases x)
  case None
  then show ?thesis by (simp add: rewrap_field_def)
next
  case (Some s)
  assume w: "0 < w"
  have "split_chunks (strip []) = []"
    by (simp add: split_chunks_def strip_def munge_whitespace_def expandtabs_def)
  with Some w show ?thesis by (auto simp: rewrap_field_def fill_pos)
qed

lemma rewrap_field_nonpos:
  "w \<le> 0 \<Longrightarrow> rewrap_field x w = (if truthy x then Inl ValueError else Inr x)"
  by (auto simp: rewrap_field_def truthy_def fill_nonpos split: option.splits)

lemma rewrap_field_cases:
  "rewrap_field x w = Inl ValueError \<or> (\<exists>y. rewrap_field x w = Inr y)"
  by (cases "0 < w") (auto simp: rewrap_field_pos rewrap_field_nonpos)


section \<open>Properties of the metadata model\<close>

lemma instances_of_filter: "instances_of k ms = filter (\<lambda>item. isinstance item k) ms"
  by (induction ms) simp_all

lemma first_instance_of_find: "first_instance_of k ms = find (\<lambda>item. isinstance item k) ms"
  by (induction ms) simp_all

lemma find_filter_hd: "find P xs = (case filter P xs of [] \<Rightarrow> None | x # ys \<Rightarrow> Some x)"
  by (induction xs) simp_all

text \<open>
  C3. For every docstring, each of the views \<open>params\<close>, \<open>raises\<close>, \<open>many_returns\<close>,
  \<open>examples\<close> and \<open>notes\<close> is the sub-sequence of \<open>meta\<close> of the fragments of the matching
  variant, in the order of \<open>meta\<close> (that is what \<open>filter\<close> returns), and \<open>returns\<close> and
  \<open>deprecation\<close> are the first \<open>Returns\<close> and the first \<open>Deprecated\<close> fragment of \<open>meta\<close>
  (what \<open>find\<close> returns), absent exactly when \<open>meta\<close> holds no such fragment.
\<close>

theorem derived_views:
  "params d = filter (\<lambda>m. kind_of (variant m) = KParam) (meta d) \<and>
   raises d = filter (\<lambda>m. kind_of (variant m) = KRaises) (meta d) \<and>
   many_returns d = filter (\<lambda>m. kind_of (variant m) = KReturns) (meta d) \<and>
   examples d = filter (\<lambda>m. kind_of (variant m) = KExample) (meta d) \<and>
   notes' d = filter (\<lambda>m. kind_of (variant m) = KNote) (meta d) \<and>
   returns d = find (\<lambda>m. kind_of (variant m) = KReturns) (meta d) \<and>
   deprecation d = find (\<lambda>m. kind_of (variant m) = KDeprecated) (meta d) \<and>
   returns d = (case many_returns d of [] \<Rightarrow> None | m # ms \<Rightarrow> Some m) \<and>
   (returns d = None) = (many_returns d = []) \<and>
   (deprecation d = None) = (filter (\<lambda>m. kind_of (variant m) = KDeprecated) (meta d) = [])"
  by (simp add: params_def raises_def many_returns_def examples_def notes'_def returns_def
        deprecation_def instances_of_filter first_instance_of_find isinstance_def
        find_filter_hd split: list.splits)

text \<open>
  The scenario of the specification: with \<open>meta\<close> in the order Param, Returns, Param,
  \<open>params\<close> is the two Param fragments in that order and \<open>returns\<close> the Returns fragment.
\<close>

theorem derived_views_witness:
  "params ((Docstring_init None)\<lparr>meta :=
      [DocstringParam [''param'', ''x''] (Some ''first'') ''x'' None None None,
       DocstringReturns [''returns''] (Some ''result'') (Some ''int'') False None,
       DocstringParam [''param'', ''y''] (Some ''second'') ''y'' None None None]\<rparr>)
   = [DocstringParam [''param'', ''x''] (Some ''first'') ''x'' None None None,
      DocstringParam [''param'', ''y''] (Some ''second'') ''y'' None None None] \<and>
   returns ((Docstring_init None)\<lparr>meta :=
      [DocstringParam [''param'', ''x''] (Some ''first'') ''x'' None None None,
       DocstringReturns [''returns''] (Some ''result'') (Some ''int'') False None,
       DocstringParam [''param'', ''y''] (Some ''second'') ''y'' None None None]\<rparr>)
   = Some (DocstringReturns [''returns''] (Some ''result'') (Some ''int'') False None)"
  using derived_views [of "(Docstring_init None)\<lparr>meta :=
      [DocstringParam [''param'', ''x''] (Some ''first'') ''x'' None None None,
       DocstringReturns [''returns''] (Some ''result'') (Some ''int'') False None,
       DocstringParam [''param'', ''y''] (Some ''second'') ''y'' None None None]\<rparr>"]
  by (simp add: Docstring_init_def DocstringParam_def DocstringReturns_def DocstringMeta_init_def)

text \<open>
  C8. The seven keyword tables are the fixed sets of lowercase words listed, the Param
  family with eight words and the Note family with two, and the word \<open>note\<close> is in both
  the Param table and the Note table (and is the only word they share).
\<close>

theorem keyword_tables:
  "PARAM_KEYWORDS = {''param'', ''parameter'', ''arg'', ''argument'', ''attribute'', ''key'',
                     ''keyword'', ''note''} \<and>
   RAISES_KEYWORDS = {''raises'', ''raise'', ''except'', ''exception''} \<and>
   DEPRECATION_KEYWORDS = {''deprecation'', ''deprecated''} \<and>
   RETURNS_KEYWORDS = {''return'', ''returns''} \<and>
   YIELDS_KEYWORDS = {''yield'', ''yields''} \<and>
   EXAMPLES_KEYWORDS = {''example'', ''examples''} \<and>
   NOTES_KEYWORDS = {''note'', ''notes''} \<and>
   card PARAM_KEYWORDS = 8 \<and> card NOTES_KEYWORDS = 2 \<and>
   ''note'' \<in> PARAM_KEYWORDS \<and> ''note'' \<in> NOTES_KEYWORDS \<and>
   PARAM_KEYWORDS \<inter> NOTES_KEYWORDS = {''note''}"
  by (simp add: PARAM_KEYWORDS_def RAISES_KEYWORDS_def DEPRECATION_KEYWORDS_def
        RETURNS_KEYWORDS_def YIELDS_KEYWORDS_def EXAMPLES_KEYWORDS_def NOTES_KEYWORDS_def)

text \<open>
  C10. A docstring constructed with any style argument \<open>s\<close> (\<open>None\<close> is the default) has
  both descriptions absent, both blank-line flags false, an empty \<open>meta\<close> and style \<open>s\<close>;
  so its five list views are empty and \<open>returns\<close> and \<open>deprecation\<close> are absent.
\<close>

theorem Docstring_init_empty:
  "short_description (Docstring_init s) = None \<and>
   long_description (Docstring_init s) = None \<and>
   blank_after_short_description (Docstring_init s) = False \<and>
   blank_after_long_description (Docstring_init s) = False \<and>
   meta (Docstring_init s) = [] \<and>
   style (Docstring_init s) = s \<and>
   params (Docstring_init s) = [] \<and> raises (Docstring_init s) = [] \<and>
   many_returns (Docstring_init s) = [] \<and> examples (Docstring_init s) = [] \<and>
   notes' (Docstring_init s) = [] \<and>
   returns (Docstring_init s) = None \<and> deprecation (Docstring_init s) = None"
  by (simp add: Docstring_init_def params_def raises_def many_returns_def examples_def
        notes'_def returns_def deprecation_def)


section \<open>Properties of the normalization pass\<close>

lemma format_frame_state:
  assumes "format_docstring_to_pep257 d w = (r, d')"
  shows "d' = d\<lparr>short_description := short_description d',
                 long_description := long_description d', meta := meta d'\<rparr>"
    and "meta d' = meta d \<or> meta d' = snd (normalize_metas w (meta d))"
  using assms
  by (auto simp: format_docstring_to_pep257_def Let_def split: sum.splits prod.splits)

text \<open>
  C4. Whatever the width, and whether the call returns or raises, the docstring the call
  leaves has as many fragments as before, in the same order, each with the variant tag and
  all variant-specific fields (\<open>type_name\<close>, \<open>is_optional\<close>, \<open>default\<close>, \<open>version\<close>,
  \<open>is_generator\<close>, \<open>return_name\<close>, \<open>snippet\<close>, held by \<open>variant\<close>) and the \<open>arg_name\<close>
  it had. A fragment differs from the original in \<open>description\<close> and \<open>args\<close> at most, and
  the docstring in \<open>short_description\<close>, \<open>long_description\<close> and \<open>meta\<close> at most.
\<close>

theorem normalize_frame:
  assumes "format_docstring_to_pep257 d w = (r, d')"
  shows "length (meta d') = length (meta d) \<and>
         map variant (meta d') = map variant (meta d) \<and>
         map arg_name (meta d') = map arg_name (meta d) \<and>
         list_all2 (\<lambda>m m'. m' = m\<lparr>description := description m', args := args m'\<rparr>)
           (meta d) (meta d') \<and>
         d' = d\<lparr>short_description := short_description d',
                 long_description := long_description d', meta := meta d'\<rparr>"
proof -
  let ?R = "\<lambda>m m'. m' = m\<lparr>description := description m', args := args m'\<rparr>"
  have fr: "list_all2 ?R (meta d) (meta d')"
    using format_frame_state(2)[OF assms] normalize_metas_frame[of "meta d" w]
    by (auto simp: list_all2_same)
  then have len: "length (meta d') = length (meta d)" by (simp add: list_all2_lengthD)
  have v: "map variant (meta d') = map variant (meta d)"
  proof (rule nth_equalityI)
    show "length (map variant (meta d')) = length (map variant (meta d))" using len by simp
  next
    fix i assume "i < length (map variant (meta d'))"
    then have i: "i < length (meta d)" using len by simp
    from list_all2_nthD[OF fr i] have "variant (meta d' ! i) = variant (meta d ! i)"
      by (metis DocstringMeta.select_convs(4) DocstringMeta.surjective DocstringMeta.update_convs(1,2))
    with i len show "map variant (meta d') ! i = map variant (meta d) ! i" by simp
  qed
  have a: "map arg_name (meta d') = map arg_name (meta d)"
  proof (rule nth_equalityI)
    show "length (map arg_name (meta d')) = length (map arg_name (meta d))" using len by simp
  next
    fix i assume "i < length (map arg_name (meta d'))"
    then have i: "i < length (meta d)" using len by simp
    from list_all2_nthD[OF fr i] have "arg_name (meta d' ! i) = arg_name (meta d ! i)"
      by (metis DocstringMeta.select_convs(3) DocstringMeta.surjective DocstringMeta.update_convs(1,2))
    with i len show "map arg_name (meta d') ! i = map arg_name (meta d) ! i" by simp
  qed
  from len v a fr format_frame_state(1)[OF assms] show ?thesis by blast
qed

text \<open>
  A Google-style docstring with a Param and a Returns fragment, normalized at width 72.
\<close>

theorem normalize_frame_witness:
  "format_docstring_to_pep257
     ((Docstring_init (Some GOOGLE))\<lparr>short_description := Some ''  Sum  two numbers. '',
        meta := [DocstringParam ['' param '', ''x ''] None ''x'' (Some ''int'') (Some False) None,
                 DocstringReturns [''returns''] None (Some ''int'') False None]\<rparr>) 72
   = (None, (Docstring_init (Some GOOGLE))\<lparr>short_description := Some ''Sum  two numbers.'',
        meta := [DocstringParam [''param'', ''x''] None ''x'' (Some ''int'') (Some False) None,
                 DocstringReturns [''returns''] None (Some ''int'') False None]\<rparr>) \<and>
   map variant [DocstringParam [''param'', ''x''] None ''x'' (Some ''int'') (Some False) None,
                DocstringReturns [''returns''] None (Some ''int'') False None]
   = map variant [DocstringParam ['' param '', ''x ''] None ''x'' (Some ''int'') (Some False) None,
                  DocstringReturns [''returns''] None (Some ''int'') False None]"
proof -
  have e: "format_docstring_to_pep257
     ((Docstring_init (Some GOOGLE))\<lparr>short_description := Some ''  Sum  two numbers. '',
        meta := [DocstringParam ['' param '', ''x ''] None ''x'' (Some ''int'') (Some False) None,
                 DocstringReturns [''returns''] None (Some ''int'') False None]\<rparr>) 72
   = (None, (Docstring_init (Some GOOGLE))\<lparr>short_description := Some ''Sum  two numbers.'',
        meta := [DocstringParam [''param'', ''x''] None ''x'' (Some ''int'') (Some False) None,
                 DocstringReturns [''returns''] None (Some ''int'') False None]\<rparr>)"
    by code_simp
  from normalize_frame [OF e] e show ?thesis by simp
qed

text \<open>
  C1. The claim says each line of a fragment's description is refilled on its own. The
  code does not get there: on line 246 the loop variables are bound in the wrong order,
  \<open>itm\<close> to the index and \<open>idx\<close> to the line, so \<open>itm.strip()\<close> is called on an \<open>int\<close> and
  raises \<open>AttributeError\<close> in the first pass of the loop, whatever the description. At the
  input of the specification's scenario the call raises and leaves the docstring as it
  was.
\<close>

theorem description_rewrap_raises:
  "format_docstring_to_pep257
     ((Docstring_init None)\<lparr>meta :=
        [DocstringParam [''param'', ''x'']
           (Some ''line one that is quite long and will wrap\<newline>line two'')
           ''x'' None None None]\<rparr>) 20
   = (Some AttributeError,
      (Docstring_init None)\<lparr>meta :=
        [DocstringParam [''param'', ''x'']
           (Some ''line one that is quite long and will wrap\<newline>line two'')
           ''x'' None None None]\<rparr>)"
  by code_simp

text \<open>
  The same holds at every positive width for every docstring with a fragment whose
  description is not empty.
\<close>

lemma description_raises:
  assumes "0 < w" "list_ex (\<lambda>m. truthy (description m)) (meta d)"
  shows "fst (format_docstring_to_pep257 d w) = Some AttributeError"
  using assms normalize_metas_outcome[of w "meta d"]
  by (auto simp: format_docstring_to_pep257_def rewrap_field_pos Let_def split: prod.splits)

text \<open>
  C2, as stated, fails: at width 0 a docstring whose \<open>short_description\<close> is \<open>a b\<close> makes
  \<open>textwrap.fill\<close> raise \<open>ValueError\<close>; nothing is wrapped.
\<close>

theorem nonpositive_width_counterexample:
  "format_docstring_to_pep257 ((Docstring_init None)\<lparr>short_description := Some ''a b''\<rparr>) 0
   = (Some ValueError, (Docstring_init None)\<lparr>short_description := Some ''a b''\<rparr>)"
  by code_simp

text \<open>
  C2, amended. For a width that is not positive the call raises \<open>ValueError\<close> and leaves
  the docstring unchanged whenever \<open>short_description\<close> or \<open>long_description\<close> is a
  non-empty string; and in no case does it rewrap \<open>short_description\<close> or
  \<open>long_description\<close>: both are left as they were, so no text is wrapped one token per
  line.
\<close>

theorem nonpositive_width:
  assumes "w \<le> 0"
  shows "(truthy (short_description d) \<or> truthy (long_description d) \<longrightarrow>
            format_docstring_to_pep257 d w = (Some ValueError, d)) \<and>
         short_description (snd (format_docstring_to_pep257 d w)) = short_description d \<and>
         long_description (snd (format_docstring_to_pep257 d w)) = long_description d"
  using assms
  by (auto simp: format_docstring_to_pep257_def rewrap_field_nonpos Let_def
           split: prod.splits if_splits)

text \<open>
  At width -3 a set \<open>long_description\<close> raises \<open>ValueError\<close>, and the text stays as it
  was.
\<close>

theorem nonpositive_width_witness:
  "(-3::int) \<le> 0 \<and>
   truthy (long_description ((Docstring_init None)\<lparr>long_description := Some ''one two''\<rparr>)) \<and>
   format_docstring_to_pep257 ((Docstring_init None)\<lparr>long_description := Some ''one two''\<rparr>) (-3)
     = (Some ValueError, (Docstring_init None)\<lparr>long_description := Some ''one two''\<rparr>) \<and>
   long_description (snd (format_docstring_to_pep257
      ((Docstring_init None)\<lparr>long_description := Some ''one two''\<rparr>) (-3))) = Some ''one two''"
  using nonpositive_width [of "-3" "(Docstring_init None)\<lparr>long_description := Some ''one two''\<rparr>"]
  by (simp add: truthy_def Docstring_init_def)

lemma rewrap_field_rewrapped:
  assumes "0 < w"
  shows "\<exists>y. rewrap_field x w = Inr y \<and> rel_option (rewrapped w) x y"
proof (cases x)
  case None
  then show ?thesis by (simp add: rewrap_field_def)
next
  case (Some s)
  let ?t = "join [CHR ''\<newline>''] (wrap_loop (nat w) [] (split_chunks (strip s)))"
  have f: "fill (strip s) w = Inr ?t" using assms by (rule fill_pos)
  have r: "rewrap_field x w = Inr (Some ?t)" using assms Some by (simp add: rewrap_field_pos)
  have "nonspace ?t = nonspace s" using fill_nonspace[OF f] by (simp add: nonspace_strip)
  with f fill_lines[OF assms f] have "rewrapped w s ?t" by (simp add: rewrapped_def)
  with r Some show ?thesis by simp
qed

text \<open>
  C5, as stated, fails: a word longer than the width is not left whole on a line of its
  own but cut at the width, and a line may also end after the hyphen of a hyphenated
  word, where there is no whitespace.
\<close>

theorem long_word_counterexample:
  "short_description (snd (format_docstring_to_pep257
      ((Docstring_init None)\<lparr>short_description := Some ''abcdefghijkl''\<rparr>) 5))
     = Some ''abcde\<newline>fghij\<newline>kl'' \<and>
   short_description (snd (format_docstring_to_pep257
      ((Docstring_init None)\<lparr>short_description := Some ''abcdefghijkl''\<rparr>) 5))
     \<noteq> Some ''abcdefghijkl'' \<and>
   short_description (snd (format_docstring_to_pep257
      ((Docstring_init None)\<lparr>short_description := Some ''aaaa-bbbb''\<rparr>) 6))
     = Some ''aaaa-\<newline>bbbb''"
  by code_simp

text \<open>
  C5, amended. At a positive width the call leaves in \<open>short_description\<close>, when it was
  set, the text stripped and refilled by \<open>textwrap.fill\<close> with its default options: every
  line of the result is at most \<open>width\<close> long, with no exception (a chunk longer than the
  width is cut), and the result differs from the original in whitespace only. The same
  holds for \<open>long_description\<close>; an absent description stays absent.
\<close>

theorem descriptions_rewrapped:
  assumes "0 < w" "format_docstring_to_pep257 d w = (r, d')"
  shows "rel_option (rewrapped w) (short_description d) (short_description d') \<and>
         rel_option (rewrapped w) (long_description d) (long_description d')"
proof -
  obtain s where s: "rewrap_field (short_description d) w = Inr s"
    "rel_option (rewrapped w) (short_description d) s"
    using rewrap_field_rewrapped[OF assms(1)] by blast
  obtain l where l: "rewrap_field (long_description d) w = Inr l"
    "rel_option (rewrapped w) (long_description d) l"
    using rewrap_field_rewrapped[OF assms(1)] by blast
  from assms(2) s(1) l(1) have "short_description d' = s" "long_description d' = l"
    by (auto simp: format_docstring_to_pep257_def Let_def split: prod.splits)
  with s(2) l(2) show ?thesis by simp
qed

text \<open>
  The scenario of the specification: \<open>This is a test.\<close> at width 10.
\<close>

theorem descriptions_rewrapped_witness:
  "(0::int) < 10 \<and>
   format_docstring_to_pep257
     ((Docstring_init None)\<lparr>short_description := Some ''This is a test.''\<rparr>) 10
   = (None, (Docstring_init None)\<lparr>short_description := Some ''This is a\<newline>test.''\<rparr>) \<and>
   rewrapped 10 ''This is a test.'' ''This is a\<newline>test.''"
proof -
  have e: "format_docstring_to_pep257
     ((Docstring_init None)\<lparr>short_description := Some ''This is a test.''\<rparr>) 10
   = (None, (Docstring_init None)\<lparr>short_description := Some ''This is a\<newline>test.''\<rparr>)"
    by code_simp
  have p: "(0::int) < 10" by simp
  from descriptions_rewrapped [OF p e] e show ?thesis by (simp add: Docstring_init_def)
qed

text \<open>
  C6. The claim says the \<open>args\<close> of every fragment are stripped and the empty tokens
  dropped, as the comment on line 251 says too. For a fragment with a description that
  is not empty the code does not get there: at width 72, with the description \<open>desc\<close>,
  the call raises \<open>AttributeError\<close> on line 247, by the defect of C1, before line 252
  runs, and the \<open>args\<close> of that fragment and of the one after it stay as they were,
  with their surrounding spaces.
\<close>

theorem args_not_cleaned:
  "format_docstring_to_pep257
     ((Docstring_init None)\<lparr>meta :=
        [DocstringParam [''  param '', '' x''] (Some ''desc'') ''x'' None None None,
         DocstringRaises ['' raises ''] None None]\<rparr>) 72
   = (Some AttributeError,
      (Docstring_init None)\<lparr>meta :=
        [DocstringParam [''  param '', '' x''] (Some ''desc'') ''x'' None None None,
         DocstringRaises ['' raises ''] None None]\<rparr>) \<and>
   clean_args [''  param '', '' x''] = [''param'', ''x''] \<and>
   clean_args ['' raises ''] = [''raises'']"
  by code_simp

text \<open>
  Where the call returns, the \<open>args\<close> of every fragment are the list of its stripped
  tokens, without those that are empty once stripped, in the original order.
\<close>

lemma args_cleaned:
  assumes "format_docstring_to_pep257 d w = (None, d')"
  shows "map args (meta d') = map (\<lambda>m. clean_args (args m)) (meta d)"
proof -
  from assms have "fst (normalize_metas w (meta d)) = None"
    and "meta d' = snd (normalize_metas w (meta d))"
    by (auto simp: format_docstring_to_pep257_def Let_def split: sum.splits prod.splits)
  then show ?thesis by (simp add: normalize_metas_returns comp_def)
qed

text \<open>
  The example of the specification: two spaces, \<open>a\<close>, space; the empty token; \<open>b\<close>, tab.
\<close>

lemma args_cleaned_example:
  "format_docstring_to_pep257
     ((Docstring_init None)\<lparr>meta :=
        [DocstringMeta_init [''  a '', '''', [CHR ''b'', CHR 0x09]] None]\<rparr>) 72
   = (None, (Docstring_init None)\<lparr>meta := [DocstringMeta_init [''a'', ''b''] None]\<rparr>) \<and>
   clean_args [''  a '', '''', [CHR ''b'', CHR 0x09]] = [''a'', ''b'']"
proof -
  have e: "format_docstring_to_pep257
     ((Docstring_init None)\<lparr>meta :=
        [DocstringMeta_init [''  a '', '''', [CHR ''b'', CHR 0x09]] None]\<rparr>) 72
   = (None, (Docstring_init None)\<lparr>meta := [DocstringMeta_init [''a'', ''b''] None]\<rparr>)"
    by code_simp
  from args_cleaned [OF e] e show ?thesis by (simp add: Docstring_init_def DocstringMeta_init_def)
qed

text \<open>
  C7. The claim presupposes that the call returns. With a fragment description that fits
  the width and has no excess whitespace, \<open>ok\<close> at width 72, the first call already
  raises \<open>AttributeError\<close>, by the defect of C1, so there is no normalized docstring to
  normalize again.
\<close>

theorem idempotence_raises:
  "format_docstring_to_pep257
     ((Docstring_init None)\<lparr>meta :=
        [DocstringParam [''param'', ''x''] (Some ''ok'') ''x'' None None None]\<rparr>) 72
   = (Some AttributeError,
      (Docstring_init None)\<lparr>meta :=
        [DocstringParam [''param'', ''x''] (Some ''ok'') ''x'' None None None]\<rparr>)"
  by code_simp

text \<open>
  C9, as stated, fails: a fragment whose description is the empty string is not skipped
  entirely, its \<open>args\<close> are still cleaned.
\<close>

theorem empty_fields_counterexample:
  "description (DocstringMeta_init [''  a ''] (Some '''')) = Some '''' \<and>
   meta (snd (format_docstring_to_pep257
      ((Docstring_init None)\<lparr>meta := [DocstringMeta_init [''  a ''] (Some '''')]\<rparr>) 72))
     = [DocstringMeta_init [''a''] (Some '''')] \<and>
   DocstringMeta_init [''a''] (Some '''') \<noteq> DocstringMeta_init [''  a ''] (Some '''')"
  by code_simp

text \<open>
  C9, amended. The two tests are independent, and each treats the empty value as an
  absent one: a \<open>short_description\<close> or \<open>long_description\<close> that is the empty string is
  left unchanged; a fragment's description that is the empty string is left unchanged; a
  fragment's \<open>args\<close> that is the empty list is left unchanged; and a fragment with no
  description, or an empty one, and an empty \<open>args\<close> is left unchanged as a whole.
\<close>

theorem empty_fields_unchanged:
  assumes "format_docstring_to_pep257 d w = (r, d')"
  shows "(short_description d = Some [] \<longrightarrow> short_description d' = Some []) \<and>
         (long_description d = Some [] \<longrightarrow> long_description d' = Some []) \<and>
         list_all2 (\<lambda>m m'. (description m = Some [] \<longrightarrow> description m' = Some []) \<and>
                             (args m = [] \<longrightarrow> args m' = []) \<and>
                             (\<not> truthy (description m) \<and> args m = [] \<longrightarrow> m' = m))
           (meta d) (meta d')"
proof -
  have e: "rewrap_field (Some []) w = Inr (Some [])" by (simp add: rewrap_field_def)
  have s: "short_description d = Some [] \<longrightarrow> short_description d' = Some []"
    using assms e
    by (auto simp: format_docstring_to_pep257_def Let_def split: sum.splits prod.splits)
  have l: "long_description d = Some [] \<longrightarrow> long_description d' = Some []"
    using assms e
    by (auto simp: format_docstring_to_pep257_def Let_def split: sum.splits prod.splits)
  have m: "list_all2 (\<lambda>m m'. (description m = Some [] \<longrightarrow> description m' = Some []) \<and>
                             (args m = [] \<longrightarrow> args m' = []) \<and>
                             (\<not> truthy (description m) \<and> args m = [] \<longrightarrow> m' = m))
           (meta d) (meta d')"
    using format_frame_state(2)[OF assms] normalize_metas_empty[of "meta d" w]
    by (auto simp: list_all2_same)
  from s l m show ?thesis by blast
qed

text \<open>
  Empty strings everywhere, at width 0: nothing raises and nothing changes.
\<close>

theorem empty_fields_unchanged_witness:
  "format_docstring_to_pep257
     ((Docstring_init None)\<lparr>short_description := Some '''', long_description := Some '''',
        meta := [DocstringRaises [] (Some '''') (Some ''KeyError'')]\<rparr>) 0
   = (None, (Docstring_init None)\<lparr>short_description := Some '''', long_description := Some '''',
        meta := [DocstringRaises [] (Some '''') (Some ''KeyError'')]\<rparr>) \<and>
   list_all2 (\<lambda>m m'. (description m = Some [] \<longrightarrow> description m' = Some []) \<and>
                       (args m = [] \<longrightarrow> args m' = []) \<and>
                       (\<not> truthy (description m) \<and> args m = [] \<longrightarrow> m' = m))
     [DocstringRaises [] (Some '''') (Some ''KeyError'')]
     [DocstringRaises [] (Some '''') (Some ''KeyError'')]"
proof -
  have e: "format_docstring_to_pep257
     ((Docstring_init None)\<lparr>short_description := Some '''', long_description := Some '''',
        meta := [DocstringRaises [] (Some '''') (Some ''KeyError'')]\<rparr>) 0
   = (None, (Docstring_init None)\<lparr>short_description := Some '''', long_description := Some '''',
        meta := [DocstringRaises [] (Some '''') (Some ''KeyError'')]\<rparr>)"
    by code_simp
  from empty_fields_unchanged [OF e] e show ?thesis by (simp add: Docstring_init_def)
qed


section \<open>Normalizing twice\<close>

lemma strip_ends:
  "strip s = [] \<or> (\<not> py_isspace (hd (strip s)) \<and> \<not> py_isspace (last (strip s)))"
proof (cases "dropWhile py_isspace s = []")
  case True
  then show ?thesis by (simp only: strip_def rev.simps dropWhile.simps) simp
next
  case False
  let ?u = "dropWhile py_isspace s"
  let ?v = "dropWhile py_isspace (rev ?u)"
  from False have hu: "\<not> py_isspace (hd ?u)" by (rule hd_dropWhile)
  have "hd ?u \<in> set (rev ?u)" using False by simp
  with hu have vne: "?v \<noteq> []" by (metis dropWhile_eq_Nil_conv)
  then have hv: "\<not> py_isspace (hd ?v)" by (rule hd_dropWhile)
  obtain p where p: "rev ?u = p @ ?v" by (metis takeWhile_dropWhile_id)
  with vne have "last ?v = last (rev ?u)" by (metis last_appendR)
  also have "\<dots> = hd ?u" using False by (simp add: last_rev)
  finally have lv: "last ?v = hd ?u" .
  have "hd (strip s) = last ?v" using vne by (simp add: strip_def hd_rev)
  moreover have "last (strip s) = hd ?v" using vne by (simp add: strip_def last_rev)
  ultimately show ?thesis using hu hv lv by simp
qed

lemma dropWhile_hd_id: "xs = [] \<or> \<not> P (hd xs) \<Longrightarrow> dropWhile P xs = xs"
  by (cases xs) auto

lemma strip_strip: "strip (strip s) = strip s"
proof (cases "strip s = []")
  case True
  have "strip [] = []" by (simp add: strip_def)
  with True show ?thesis by (simp only:)
next
  case False
  with strip_ends[of s] have e: "\<not> py_isspace (hd (strip s))" "\<not> py_isspace (last (strip s))"
    by simp_all
  have a: "dropWhile py_isspace (strip s) = strip s" using e(1) by (intro dropWhile_hd_id) simp
  have "hd (rev (strip s)) = last (strip s)" using False by (simp add: hd_rev)
  with e(2) have b: "dropWhile py_isspace (rev (strip s)) = rev (strip s)"
    by (intro dropWhile_hd_id) simp
  show ?thesis unfolding strip_def[of "strip s"] a b by simp
qed

lemma clean_args_idem: "clean_args (clean_args as) = clean_args as"
  by (induction as) (simp_all add: clean_args_def strip_strip)

lemma expandtabs_from_no_tab: "CHR 0x09 \<notin> set s \<Longrightarrow> expandtabs_from j s = s"
  by (induction j s rule: expandtabs_from.induct) auto

lemma munge_id:
  assumes "list_all (\<lambda>c. tw_whitespace c \<longrightarrow> c = CHR '' '') s"
  shows "munge_whitespace s = s"
proof -
  have "tw_whitespace CHR 0x09" by (simp add: tw_whitespace_def)
  with assms have "CHR 0x09 \<notin> set s" by (auto simp: list_all_iff)
  then have "expandtabs s = s" by (simp add: expandtabs_def expandtabs_from_no_tab)
  moreover have "map (\<lambda>c. if tw_whitespace c then CHR '' '' else c) s = s"
    using assms by (intro map_idI) (auto simp: list_all_iff)
  ultimately show ?thesis by (simp add: munge_whitespace_def)
qed

lemma take_fitting_all:
  "n + length (concat cs) \<le> w \<Longrightarrow> take_fitting w n cs = (cs, n + length (concat cs), [])"
  by (induction cs arbitrary: n) (simp_all add: add.assoc)

lemma wordsep_split_nonempty: "[] \<notin> set (wordsep_split behind s)"
  by (induction behind s rule: wordsep_split.induct) (simp_all add: Let_def)

lemma last_concat: "xs \<noteq> [] \<Longrightarrow> last xs \<noteq> [] \<Longrightarrow> last (concat xs) = last (last xs)"
  by (induction xs) (auto simp: last_append)

lemma wrap_loop_fits:
  assumes "chunks \<noteq> []" "length (concat chunks) \<le> w" "strip (last chunks) \<noteq> []"
  shows "wrap_loop w [] chunks = [concat chunks]"
proof -
  have tf: "take_fitting w 0 chunks = (chunks, length (concat chunks), [])"
    using take_fitting_all[of 0 chunks w] assms(2) by simp
  have "wrap_line w False chunks = (Some (concat chunks), [])"
    using assms(1,3) by (simp add: wrap_line_def tf del: length_concat)
  then have "wrap_loop w [] chunks = wrap_loop w [concat chunks] []"
    using assms(1) wrap_loop_step[of chunks w "[]" "Some (concat chunks)" "[]"] by simp
  then show ?thesis by simp
qed

lemma fill_fits:
  assumes "0 < w" "length t \<le> nat w"
    and "list_all (\<lambda>c. tw_whitespace c \<longrightarrow> c = CHR '' '') t"
    and "t = [] \<or> \<not> py_isspace (last t)"
  shows "fill t w = Inr t"
proof (cases "t = []")
  case True
  then show ?thesis using assms(1)
    by (simp add: fill_pos split_chunks_def munge_whitespace_def expandtabs_def)
next
  case False
  let ?cs = "split_chunks t"
  have c: "concat ?cs = t" using assms(3) by (simp add: split_chunks_def wordsep_split_concat munge_id)
  with False have ne: "?cs \<noteq> []" by auto
  have "[] \<notin> set ?cs" by (simp add: split_chunks_def wordsep_split_nonempty)
  with ne have lne: "last ?cs \<noteq> []" by (metis last_in_set)
  with ne c have "last (last ?cs) = last t" by (metis last_concat)
  with assms(4) False lne have "\<not> list_all py_isspace (last ?cs)"
    by (metis last_in_set list_all_iff)
  then have s: "strip (last ?cs) \<noteq> []" by (simp add: strip_empty_iff)
  have "wrap_loop (nat w) [] ?cs = [concat ?cs]"
    using ne assms(2) s c by (intro wrap_loop_fits) simp_all
  with c show ?thesis using assms(1) by (simp add: fill_pos)
qed

lemma rewrap_field_tidy:
  assumes "0 < w" "tidy w x"
  shows "rewrap_field x w = Inr (map_option strip x)"
proof (cases x)
  case None
  then show ?thesis by (simp add: rewrap_field_def)
next
  case (Some s)
  have e: "strip s = [] \<or> \<not> py_isspace (last (strip s))" using strip_ends[of s] by blast
  from assms(2) Some have "fill (strip s) w = Inr (strip s)"
    using assms(1) e by (intro fill_fits) (simp_all add: tidy_def)
  with Some show ?thesis by (auto simp: rewrap_field_def strip_def)
qed

lemma tidy_strip: "tidy w x \<Longrightarrow> tidy w (map_option strip x)"
  by (cases x) (simp_all add: tidy_def strip_strip)

lemma normalize_metas_plain:
  "\<not> list_ex (\<lambda>m. truthy (description m)) ms \<Longrightarrow>
   normalize_metas w ms = (None, map (\<lambda>m. m\<lparr>args := clean_args (args m)\<rparr>) ms)"
  by (induction ms) (simp_all add: normalize_meta_eq)

lemma format_tidy:
  assumes "0 < w" "tidy w (short_description d)" "tidy w (long_description d)"
    and "\<not> list_ex (\<lambda>m. truthy (description m)) (meta d)"
  shows "format_docstring_to_pep257 d w =
           (None, d\<lparr>short_description := map_option strip (short_description d),
                    long_description := map_option strip (long_description d),
                    meta := map (\<lambda>m. m\<lparr>args := clean_args (args m)\<rparr>) (meta d)\<rparr>)"
  using assms
  by (simp add: format_docstring_to_pep257_def rewrap_field_tidy normalize_metas_plain)

text \<open>
  Where the defect of C1 is out of reach, that is when no fragment has a description,
  the property of C7 holds: the call returns, and a second call returns the same
  docstring.
\<close>

lemma normalize_idempotent_without_fragment_descriptions:
  assumes "0 < w" "tidy w (short_description d)" "tidy w (long_description d)"
    and "\<not> list_ex (\<lambda>m. truthy (description m)) (meta d)"
    and "format_docstring_to_pep257 d w = (r, d')"
  shows "r = None \<and> format_docstring_to_pep257 d' w = (None, d')"
proof -
  let ?d = "d\<lparr>short_description := map_option strip (short_description d),
                    long_description := map_option strip (long_description d),
                    meta := map (\<lambda>m. m\<lparr>args := clean_args (args m)\<rparr>) (meta d)\<rparr>"
  from format_tidy[OF assms(1-4)] assms(5) have r: "r = None" and d': "d' = ?d" by simp_all
  have n: "\<not> list_ex (\<lambda>m. truthy (description m)) (meta ?d)"
    using assms(4) by (simp add: list_ex_iff)
  have "format_docstring_to_pep257 ?d w = (None, ?d)"
    using format_tidy[of w ?d, OF assms(1) _ _ n] assms(2,3)
    by (simp add: tidy_strip option.map_comp comp_def strip_strip clean_args_idem)
  with r d' show ?thesis by simp
qed

lemma normalize_idempotent_example:
  "format_docstring_to_pep257
     ((Docstring_init None)\<lparr>short_description := Some '' Sum two numbers.'',
        meta := [DocstringRaises ['' raises'', ''KeyError''] None (Some ''KeyError'')]\<rparr>) 20
   = (None, (Docstring_init None)\<lparr>short_description := Some ''Sum two numbers.'',
        meta := [DocstringRaises [''raises'', ''KeyError''] None (Some ''KeyError'')]\<rparr>) \<and>
   format_docstring_to_pep257
     ((Docstring_init None)\<lparr>short_description := Some ''Sum two numbers.'',
        meta := [DocstringRaises [''raises'', ''KeyError''] None (Some ''KeyError'')]\<rparr>) 20
   = (None, (Docstring_init None)\<lparr>short_description := Some ''Sum two numbers.'',
        meta := [DocstringRaises [''raises'', ''KeyError''] None (Some ''KeyError'')]\<rparr>)"
proof -
  have e: "format_docstring_to_pep257
     ((Docstring_init None)\<lparr>short_description := Some '' Sum two numbers.'',
        meta := [DocstringRaises ['' raises'', ''KeyError''] None (Some ''KeyError'')]\<rparr>) 20
   = (None, (Docstring_init None)\<lparr>short_description := Some ''Sum two numbers.'',
        meta := [DocstringRaises [''raises'', ''KeyError''] None (Some ''KeyError'')]\<rparr>)"
    by code_simp
  have t: "tidy 20 (Some '' Sum two numbers.'')" by code_simp
  have p: "(0::int) < 20" by simp
  from normalize_idempotent_without_fragment_descriptions [OF p _ _ _ e] t e
  show ?thesis
    by (simp add: Docstring_init_def DocstringRaises_def DocstringMeta_init_def tidy_def truthy_def)
qed

end
